theory Spec2Isabelle
  imports Main "HOL-Library.Sublist"
begin

section \<open>The dataset reformatter of the Gemma LoRA notebook\<close>

text \<open>
  The notebook \<^verbatim>\<open>models/Gemma/lora.ipynb\<close> holds three helper functions,
  \<^verbatim>\<open>write_jsonl\<close>, \<^verbatim>\<open>form_question\<close> and \<^verbatim>\<open>convert_to_jsonl\<close>, which turn the PubMedQA
  question file into prompt/completion pairs, one JSON object per line. This theory
  embeds the three functions and the Python operations they rest on.
\<close>

subsection \<open>Python values, as \<^verbatim>\<open>json.load\<close> returns them\<close>

text \<open>
  A parsed JSON document is \<^verbatim>\<open>None\<close>, a \<^verbatim>\<open>bool\<close>, an \<^verbatim>\<open>int\<close> (unbounded), a \<^verbatim>\<open>str\<close>, a
  \<^verbatim>\<open>list\<close> or a \<^verbatim>\<open>dict\<close> with \<^verbatim>\<open>str\<close> keys. A dict is an association list in
  insertion order; a real dict has distinct keys, and the theorems that need it say so.
  A character of a \<^verbatim>\<open>str\<close> is one code point below 256. Numbers with a fraction or
  an exponent (Python floats) are not part of the model.
\<close>

datatype json =
    JNull
  | JBool bool
  | JInt int
  | JStr string
  | JArr "json list"
  | JObj "(string \<times> json) list"

text \<open>The exceptions the helpers can raise; \<open>KeyError\<close> carries the key.\<close>

datatype py_error =
    KeyError json
  | IndexError
  | TypeError
  | AttributeError
  | JSONDecodeError
  | OSError

abbreviation dquote :: char where "dquote \<equiv> CHR 0x22"
abbreviation squote :: char where "squote \<equiv> CHR 0x27"
abbreviation bslash :: char where "bslash \<equiv> CHR 0x5C"
abbreviation newline :: char where "newline \<equiv> CHR 0x0A"

subsection \<open>\<^verbatim>\<open>str()\<close> and \<^verbatim>\<open>repr()\<close>: what an f-string puts in place of a value\<close>

fun show_nat :: "nat \<Rightarrow> string" where
  "show_nat n =
     (if n < 10 then [char_of (48 + n)]
      else show_nat (n div 10) @ [char_of (48 + n mod 10)])"

declare show_nat.simps [simp del]

definition show_int :: "int \<Rightarrow> string" where
  "show_int i = (if i < 0 then CHR ''-'' # show_nat (nat (- i)) else show_nat (nat i))"

definition hex_digit :: "nat \<Rightarrow> char" where
  "hex_digit d = ''0123456789abcdef'' ! (d mod 16)"

text \<open>\<^verbatim>\<open>sep.join(parts)\<close>\<close>

fun join :: "string \<Rightarrow> string list \<Rightarrow> string" where
  "join sep [] = []"
| "join sep [x] = x"
| "join sep (x # y # ys) = x @ sep @ join sep (y # ys)"

text \<open>
  \<^verbatim>\<open>repr\<close> of a \<^verbatim>\<open>str\<close>: single quotes unless the text has a single quote and no
  double quote; the quote and the backslash are escaped, tab, line feed and carriage
  return are written \<^verbatim>\<open>\t \n \r\<close>, and the code points that are not printable
  (below 32, 127 to 160, and 173) are written \<^verbatim>\<open>\xhh\<close>.
\<close>

definition repr_char :: "char \<Rightarrow> char \<Rightarrow> string" where
  "repr_char q c =
     (let n = (of_char c :: nat) in
      if c = q \<or> c = bslash then [bslash, c]
      else if c = CHR 0x09 then [bslash, CHR ''t'']
      else if c = newline then [bslash, CHR ''n'']
      else if c = CHR 0x0D then [bslash, CHR ''r'']
      else if n < 32 \<or> n = 127 then [bslash, CHR ''x'', hex_digit (n div 16), hex_digit (n mod 16)]
      else if n < 127 then [c]
      else if n < 161 \<or> n = 173 then [bslash, CHR ''x'', hex_digit (n div 16), hex_digit (n mod 16)]
      else [c])"

definition repr_str :: "string \<Rightarrow> string" where
  "repr_str s =
     (let q = (if squote \<in> set s \<and> dquote \<notin> set s then dquote else squote)
      in [q] @ concat (map (repr_char q) s) @ [q])"

fun py_repr :: "json \<Rightarrow> string" where
  "py_repr JNull = ''None''"
| "py_repr (JBool b) = (if b then ''True'' else ''False'')"
| "py_repr (JInt i) = show_int i"
| "py_repr (JStr s) = repr_str s"
| "py_repr (JArr xs) = ''['' @ join '', '' (map py_repr xs) @ '']''"
| "py_repr (JObj kvs) =
     ''{'' @ join '', '' (map (\<lambda>(k, v). repr_str k @ '': '' @ py_repr v) kvs) @ ''}''"

text \<open>\<^verbatim>\<open>f"{v}"\<close> is \<^verbatim>\<open>format(v, "")\<close>: a \<^verbatim>\<open>str\<close> as it is, any other value by its \<^verbatim>\<open>repr\<close>.\<close>

definition py_str :: "json \<Rightarrow> string" where
  "py_str v = (case v of JStr s \<Rightarrow> s | _ \<Rightarrow> py_repr v)"

subsection \<open>Subscripts and iteration\<close>

text \<open>
  \<^verbatim>\<open>v[key]\<close> with a \<^verbatim>\<open>str\<close> key: a dict looks the key up and raises \<^verbatim>\<open>KeyError\<close> when it
  is absent; every other value raises \<^verbatim>\<open>TypeError\<close>.
\<close>

definition py_getitem_str :: "json \<Rightarrow> string \<Rightarrow> py_error + json" where
  "py_getitem_str v key =
     (case v of
        JObj kvs \<Rightarrow> (case map_of kvs key of None \<Rightarrow> Inl (KeyError (JStr key)) | Some x \<Rightarrow> Inr x)
      | _ \<Rightarrow> Inl TypeError)"

text \<open>
  \<^verbatim>\<open>v[i]\<close> with the index \<open>i \<ge> 0\<close> that \<^verbatim>\<open>enumerate\<close> supplies: a list or a \<^verbatim>\<open>str\<close> raises
  \<^verbatim>\<open>IndexError\<close> out of range, a dict (whose keys are all \<^verbatim>\<open>str\<close>) raises
  \<^verbatim>\<open>KeyError\<close>, and \<^verbatim>\<open>None\<close>, a \<^verbatim>\<open>bool\<close> or an \<^verbatim>\<open>int\<close> raises \<^verbatim>\<open>TypeError\<close>.
\<close>

definition py_getitem_int :: "json \<Rightarrow> nat \<Rightarrow> py_error + json" where
  "py_getitem_int v i =
     (case v of
        JArr xs \<Rightarrow> (if i < length xs then Inr (xs ! i) else Inl IndexError)
      | JStr s \<Rightarrow> (if i < length s then Inr (JStr [s ! i]) else Inl IndexError)
      | JObj kvs \<Rightarrow> Inl (KeyError (JInt (int i)))
      | _ \<Rightarrow> Inl TypeError)"

text \<open>
  The items a \<^verbatim>\<open>for\<close> loop runs over: the elements of a list, the characters of a
  \<^verbatim>\<open>str\<close>, the keys of a dict; other values are not iterable.
\<close>

definition py_iter :: "json \<Rightarrow> py_error + json list" where
  "py_iter v =
     (case v of
        JArr xs \<Rightarrow> Inr xs
      | JStr s \<Rightarrow> Inr (map (\<lambda>c. JStr [c]) s)
      | JObj kvs \<Rightarrow> Inr (map (\<lambda>kv. JStr (fst kv)) kvs)
      | _ \<Rightarrow> Inl TypeError)"

text \<open>\<^verbatim>\<open>data.keys()\<close>: only a dict has the attribute.\<close>

definition py_keys :: "json \<Rightarrow> py_error + string list" where
  "py_keys v = (case v of JObj kvs \<Rightarrow> Inr (map fst kvs) | _ \<Rightarrow> Inl AttributeError)"

subsection \<open>\<^verbatim>\<open>form_question\<close>\<close>

definition instruction_suffix :: string where
  "instruction_suffix =
     ''TARGET: the answer to the question given the context is (yes|no|maybe): ''"

text \<open>
  The loop \<^verbatim>\<open>for i, label in enumerate(obj['LABELS']): st += f"{obj['CONTEXTS'][i]}\n"\<close>.
  The label is bound and never read; \<^verbatim>\<open>obj['CONTEXTS']\<close> is looked up in every round.
\<close>

fun form_question_loop :: "json \<Rightarrow> nat \<Rightarrow> json list \<Rightarrow> string \<Rightarrow> py_error + string" where
  "form_question_loop obj i [] st = Inr st"
| "form_question_loop obj i (label # labels) st =
     (case py_getitem_str obj ''CONTEXTS'' of
        Inl e \<Rightarrow> Inl e
      | Inr contexts \<Rightarrow>
          (case py_getitem_int contexts i of
             Inl e \<Rightarrow> Inl e
           | Inr c \<Rightarrow> form_question_loop obj (Suc i) labels (st @ py_str c @ [newline])))"

definition form_question :: "json \<Rightarrow> py_error + string" where
  "form_question obj =
     (case py_getitem_str obj ''QUESTION'' of
        Inl e \<Rightarrow> Inl e
      | Inr question \<Rightarrow>
          (case py_getitem_str obj ''LABELS'' of
             Inl e \<Rightarrow> Inl e
           | Inr labels \<Rightarrow>
               (case py_iter labels of
                  Inl e \<Rightarrow> Inl e
                | Inr items \<Rightarrow>
                    (case form_question_loop obj 0 items
                            (''QUESTION:'' @ py_str question @ [newline] @ ''CONTEXT: '') of
                       Inl e \<Rightarrow> Inl e
                     | Inr st \<Rightarrow> Inr (st @ instruction_suffix)))))"

subsection \<open>\<^verbatim>\<open>json.dumps\<close>\<close>

text \<open>
  The default encoder (\<^verbatim>\<open>ensure_ascii=True\<close>, separators \<^verbatim>\<open>", "\<close> and \<^verbatim>\<open>": "\<close>). In a
  string the double quote and the backslash are escaped with a backslash, the five
  control characters with a short form are written \<^verbatim>\<open>\b \f \n \r \t\<close>, the printable
  ASCII characters (32 to 126) stand for themselves, and every other code point is
  written \<^verbatim>\<open>\u00hh\<close>.
\<close>

definition ascii_escape_char :: "char \<Rightarrow> string" where
  "ascii_escape_char c =
     (let n = (of_char c :: nat) in
      if c = dquote then [bslash, dquote]
      else if c = bslash then [bslash, bslash]
      else if c = newline then [bslash, CHR ''n'']
      else if c = CHR 0x0D then [bslash, CHR ''r'']
      else if c = CHR 0x09 then [bslash, CHR ''t'']
      else if c = CHR 0x08 then [bslash, CHR ''b'']
      else if c = CHR 0x0C then [bslash, CHR ''f'']
      else if 32 \<le> n \<and> n \<le> 126 then [c]
      else [bslash, CHR ''u'', CHR ''0'', CHR ''0'', hex_digit (n div 16), hex_digit (n mod 16)])"

definition dumps_str :: "string \<Rightarrow> string" where
  "dumps_str s = [dquote] @ concat (map ascii_escape_char s) @ [dquote]"

fun json_dumps :: "json \<Rightarrow> string" where
  "json_dumps JNull = ''null''"
| "json_dumps (JBool b) = (if b then ''true'' else ''false'')"
| "json_dumps (JInt i) = show_int i"
| "json_dumps (JStr s) = dumps_str s"
| "json_dumps (JArr xs) = ''['' @ join '', '' (map json_dumps xs) @ '']''"
| "json_dumps (JObj kvs) =
     ''{'' @ join '', '' (map (\<lambda>(k, v). dumps_str k @ '': '' @ json_dumps v) kvs) @ ''}''"

subsection \<open>Files\<close>

text \<open>
  The state of the world the helpers act on: the text of every file, which paths can
  be opened for writing, the largest size a file may reach (\<open>None\<close>: no limit), which is
  the cause of a failing write to the device, and the size of the buffer of a file
  opened for writing.
\<close>

type_synonym path = string

record world =
  files :: "path \<Rightarrow> string option"
  writable :: "path \<Rightarrow> bool"
  fsize_limit :: "nat option"
  buffer_size :: nat

text \<open>The world in which the file at \<open>p\<close> holds \<open>txt\<close>.\<close>

definition put_file :: "path \<Rightarrow> string \<Rightarrow> world \<Rightarrow> world" where
  "put_file p txt w = w\<lparr>files := (files w)(p \<mapsto> txt)\<rparr>"

text \<open>\<^verbatim>\<open>open(path, 'rt')\<close> followed by reading the whole text.\<close>

definition open_rt :: "path \<Rightarrow> world \<Rightarrow> py_error + string" where
  "open_rt p w = (case files w p of None \<Rightarrow> Inl OSError | Some txt \<Rightarrow> Inr txt)"

text \<open>
  \<^verbatim>\<open>open(path, 'wt')\<close>: creates the file or cuts it to length 0. The file object it
  returns has an empty buffer.
\<close>

definition open_wt :: "path \<Rightarrow> world \<Rightarrow> (py_error + unit) \<times> world" where
  "open_wt p w = (if writable w p then (Inr (), put_file p [] w) else (Inl OSError, w))"

text \<open>
  A text file opened for writing is buffered: \<^verbatim>\<open>f.write(s)\<close> puts \<open>s\<close> into the buffer of
  the file object, and the buffer goes to the file when it has grown beyond its size
  and when the file is closed. Writing the buffer \<open>buf\<close> out appends as many of its
  characters as the size limit lets in; when some do not fit, they stay in the buffer
  and \<^verbatim>\<open>OSError\<close> is raised. The functions return the result, the buffer and the world.
  How large the buffer is depends on the Python runtime; what \<^verbatim>\<open>write_jsonl\<close> returns and
  leaves in the file is the same for every size (lemma \<open>write_jsonl_result\<close>).
\<close>

definition f_flush :: "path \<Rightarrow> string \<Rightarrow> world \<Rightarrow> (py_error + unit) \<times> string \<times> world" where
  "f_flush p buf w =
     (case files w p of
        None \<Rightarrow> (Inl OSError, buf, w)
      | Some old \<Rightarrow>
          (let n = (case fsize_limit w of
                      None \<Rightarrow> length buf
                    | Some m \<Rightarrow> min (length buf) (m - length old))
           in if n = length buf then (Inr (), [], put_file p (old @ buf) w)
              else (Inl OSError, drop n buf, put_file p (old @ take n buf) w)))"

definition f_write ::
  "path \<Rightarrow> string \<Rightarrow> string \<Rightarrow> world \<Rightarrow> (py_error + unit) \<times> string \<times> world" where
  "f_write p s buf w =
     (if buffer_size w < length (buf @ s) then f_flush p (buf @ s) w else (Inr (), buf @ s, w))"

text \<open>\<^verbatim>\<open>f.close()\<close> writes the buffer out; the file object is gone afterwards.\<close>

definition f_close :: "path \<Rightarrow> string \<Rightarrow> world \<Rightarrow> (py_error + unit) \<times> world" where
  "f_close p buf w = (case f_flush p buf w of (r, rest, w1) \<Rightarrow> (r, w1))"

subsection \<open>\<^verbatim>\<open>write_jsonl\<close>\<close>

text \<open>The loop \<^verbatim>\<open>for o in json_objs: f.write(json.dumps(o)+"\n")\<close>, with the buffer of \<open>f\<close>.\<close>

fun write_jsonl_loop ::
  "path \<Rightarrow> json list \<Rightarrow> string \<Rightarrow> world \<Rightarrow> (py_error + unit) \<times> string \<times> world" where
  "write_jsonl_loop fname [] buf w = (Inr (), buf, w)"
| "write_jsonl_loop fname (obj # json_objs) buf w =
     (case f_write fname (json_dumps obj @ [newline]) buf w of
        (Inl e, buf1, w1) \<Rightarrow> (Inl e, buf1, w1)
      | (Inr u, buf1, w1) \<Rightarrow> write_jsonl_loop fname json_objs buf1 w1)"

text \<open>
  The \<^verbatim>\<open>with\<close> block closes the file on every way out. When the loop has raised and
  closing raises too, the error of the closing is the one the caller sees.
\<close>

definition write_jsonl :: "path \<Rightarrow> json list \<Rightarrow> world \<Rightarrow> (py_error + unit) \<times> world" where
  "write_jsonl fname json_objs w =
     (case open_wt fname w of
        (Inl e, w1) \<Rightarrow> (Inl e, w1)
      | (Inr u, w1) \<Rightarrow>
          (case write_jsonl_loop fname json_objs [] w1 of
             (Inl e, buf, w2) \<Rightarrow>
               (case f_close fname buf w2 of
                  (Inl e2, w3) \<Rightarrow> (Inl e2, w3)
                | (Inr u, w3) \<Rightarrow> (Inl e, w3))
           | (Inr u, buf, w2) \<Rightarrow> f_close fname buf w2))"

subsection \<open>\<^verbatim>\<open>convert_to_jsonl\<close>\<close>

text \<open>
  The loop \<^verbatim>\<open>for k in data.keys()\<close>, with the list \<^verbatim>\<open>json_objs\<close> it appends to. The record
  it appends is the dict \<^verbatim>\<open>{"input": prompt, "output": completion}\<close>.
\<close>

fun convert_loop :: "json \<Rightarrow> string list \<Rightarrow> json list \<Rightarrow> py_error + json list" where
  "convert_loop data [] json_objs = Inr json_objs"
| "convert_loop data (k # ks) json_objs =
     (case py_getitem_str data k of
        Inl e \<Rightarrow> Inl e
      | Inr obj \<Rightarrow>
          (case form_question obj of
             Inl e \<Rightarrow> Inl e
           | Inr prompt \<Rightarrow>
               (case py_getitem_str obj ''reasoning_required_pred'' of
                  Inl e \<Rightarrow> Inl e
                | Inr completion \<Rightarrow>
                    convert_loop data ks
                      (json_objs @ [JObj [(''input'', JStr prompt), (''output'', completion)]]))))"

text \<open>
  \<^verbatim>\<open>json.load\<close> is the standard library's decoder; it is a parameter here, from the text
  of the source file to the value it denotes or the error it raises.
\<close>

definition convert_to_jsonl ::
  "(string \<Rightarrow> py_error + json) \<Rightarrow> path \<Rightarrow> path \<Rightarrow> world \<Rightarrow> (py_error + json list) \<times> world" where
  "convert_to_jsonl json_load data_path output_path w =
     (case open_rt data_path w of
        Inl e \<Rightarrow> (Inl e, w)
      | Inr txt \<Rightarrow>
          (case json_load txt of
             Inl e \<Rightarrow> (Inl e, w)
           | Inr data \<Rightarrow>
               (case py_keys data of
                  Inl e \<Rightarrow> (Inl e, w)
                | Inr ks \<Rightarrow>
                    (case convert_loop data ks [] of
                       Inl e \<Rightarrow> (Inl e, w)
                     | Inr json_objs \<Rightarrow>
                         (case write_jsonl output_path json_objs w of
                            (Inl e, w') \<Rightarrow> (Inl e, w')
                          | (Inr u, w') \<Rightarrow> (Inr json_objs, w'))))))"

subsection \<open>The vocabulary of the specification\<close>

text \<open>
  A Source Record as the specification's data model has it: a dict with a question
  \<^verbatim>\<open>str\<close>, a list of context passages, a parallel list of labels (one for each passage)
  and an answer label, each of them a \<^verbatim>\<open>str\<close>.
\<close>

definition is_str :: "json \<Rightarrow> bool" where
  "is_str v = (case v of JStr s \<Rightarrow> True | _ \<Rightarrow> False)"

definition valid_record :: "json \<Rightarrow> bool" where
  "valid_record obj =
     (case obj of
        JObj r \<Rightarrow>
          (case (map_of r ''QUESTION'', map_of r ''CONTEXTS'', map_of r ''LABELS'',
                 map_of r ''reasoning_required_pred'') of
             (Some (JStr q), Some (JArr cs), Some (JArr ls), Some (JStr a)) \<Rightarrow>
               list_all is_str cs \<and> list_all is_str ls \<and> length ls = length cs
           | _ \<Rightarrow> False)
      | _ \<Rightarrow> False)"

text \<open>A source mapping of valid records: a dict (its keys distinct) whose values are valid.\<close>

definition valid_mapping :: "(string \<times> json) list \<Rightarrow> bool" where
  "valid_mapping kvs = (distinct (map fst kvs) \<and> list_all (\<lambda>kv. valid_record (snd kv)) kvs)"

text \<open>
  The output record the loop body of \<^verbatim>\<open>convert_to_jsonl\<close> builds from one source
  record: \<open>converts_to obj rec\<close> holds when the body runs through on \<open>obj\<close> and appends \<open>rec\<close>.
\<close>

definition converts_to :: "json \<Rightarrow> json \<Rightarrow> bool" where
  "converts_to obj rec =
     (case form_question obj of
        Inl e \<Rightarrow> False
      | Inr prompt \<Rightarrow>
          (case py_getitem_str obj ''reasoning_required_pred'' of
             Inl e \<Rightarrow> False
           | Inr completion \<Rightarrow> rec = JObj [(''input'', JStr prompt), (''output'', completion)]))"

text \<open>The prompt for a question and the context passages that are used.\<close>

definition prompt_of :: "json \<Rightarrow> json list \<Rightarrow> string" where
  "prompt_of question passages =
     ''QUESTION:'' @ py_str question @ [newline] @ ''CONTEXT: '' @
     concat (map (\<lambda>c. py_str c @ [newline]) passages) @ instruction_suffix"

text \<open>The text \<^verbatim>\<open>write_jsonl\<close> writes for a list of records: one line each.\<close>

definition jsonl_text :: "json list \<Rightarrow> string" where
  "jsonl_text json_objs = concat (map (\<lambda>obj. json_dumps obj @ [newline]) json_objs)"

text \<open>
  The lines of a text: each ends at a line feed; text after the last line feed is a
  line of its own.
\<close>

fun lines_from :: "string \<Rightarrow> string \<Rightarrow> string list" where
  "lines_from cur [] = (if cur = [] then [] else [cur])"
| "lines_from cur (c # cs) =
     (if c = newline then cur # lines_from [] cs else lines_from (cur @ [c]) cs)"

definition lines_of :: "string \<Rightarrow> string list" where
  "lines_of txt = lines_from [] txt"

text \<open>
  Reading a line back as JSON (RFC 8259), for texts that are one object whose members
  all have string values: the tokens first, then the object. \<open>decode_line\<close> returns the
  members in their order, and \<open>None\<close> for every other text. Inside a string literal a
  control character must be escaped, and an escape is one of \<^verbatim>\<open>\" \\ \/ \b \f \n \r \t\<close> or
  \<^verbatim>\<open>\uhhhh\<close>; code points from 256 on have no character in this model and are refused.
\<close>

datatype token = LBrace | RBrace | Colon | Comma | TStr string

definition hex_val :: "char \<Rightarrow> nat option" where
  "hex_val c =
     (let n = (of_char c :: nat) in
      if 48 \<le> n \<and> n \<le> 57 then Some (n - 48)
      else if 97 \<le> n \<and> n \<le> 102 then Some (n - 87)
      else if 65 \<le> n \<and> n \<le> 70 then Some (n - 55)
      else None)"

definition hex4 :: "char \<Rightarrow> char \<Rightarrow> char \<Rightarrow> char \<Rightarrow> nat option" where
  "hex4 a b c d =
     (case (hex_val a, hex_val b, hex_val c, hex_val d) of
        (Some x, Some y, Some z, Some u) \<Rightarrow> Some (((x * 16 + y) * 16 + z) * 16 + u)
      | _ \<Rightarrow> None)"

definition simple_escape :: "char \<Rightarrow> char option" where
  "simple_escape e =
     (if e = dquote then Some dquote
      else if e = bslash then Some bslash
      else if e = CHR ''/'' then Some CHR ''/''
      else if e = CHR ''b'' then Some (CHR 0x08)
      else if e = CHR ''f'' then Some (CHR 0x0C)
      else if e = CHR ''n'' then Some newline
      else if e = CHR ''r'' then Some (CHR 0x0D)
      else if e = CHR ''t'' then Some (CHR 0x09)
      else None)"

fun lex :: "string \<Rightarrow> token list option"
  and lex_str :: "string \<Rightarrow> string \<Rightarrow> token list option" where
  "lex [] = Some []"
| "lex (c # cs) =
     (if c = CHR '' '' \<or> c = CHR 0x09 \<or> c = newline \<or> c = CHR 0x0D then lex cs
      else if c = CHR ''{'' then map_option (Cons LBrace) (lex cs)
      else if c = CHR ''}'' then map_option (Cons RBrace) (lex cs)
      else if c = CHR '':'' then map_option (Cons Colon) (lex cs)
      else if c = CHR '','' then map_option (Cons Comma) (lex cs)
      else if c = dquote then lex_str [] cs
      else None)"
| "lex_str acc [] = None"
| "lex_str acc (c # cs) =
     (if c = dquote then map_option (Cons (TStr acc)) (lex cs)
      else if c = bslash then
        (case cs of
           [] \<Rightarrow> None
         | e # cs' \<Rightarrow>
             (if e = CHR ''u'' then
                (case cs' of
                   h1 # h2 # h3 # h4 # cs'' \<Rightarrow>
                     (case hex4 h1 h2 h3 h4 of
                        None \<Rightarrow> None
                      | Some n \<Rightarrow> if n < 256 then lex_str (acc @ [char_of n]) cs'' else None)
                 | _ \<Rightarrow> None)
              else
                (case simple_escape e of
                   None \<Rightarrow> None
                 | Some x \<Rightarrow> lex_str (acc @ [x]) cs')))
      else if (of_char c :: nat) < 32 then None
      else lex_str (acc @ [c]) cs)"

fun parse_members :: "token list \<Rightarrow> (string \<times> string) list option" where
  "parse_members [TStr k, Colon, TStr v, RBrace] = Some [(k, v)]"
| "parse_members (TStr k # Colon # TStr v # Comma # ts) = map_option (Cons (k, v)) (parse_members ts)"
| "parse_members ts = None"

fun parse_object :: "token list \<Rightarrow> (string \<times> string) list option" where
  "parse_object [LBrace, RBrace] = Some []"
| "parse_object (LBrace # ts) = parse_members ts"
| "parse_object ts = None"

definition decode_line :: "string \<Rightarrow> (string \<times> string) list option" where
  "decode_line txt = (case lex txt of None \<Rightarrow> None | Some ts \<Rightarrow> parse_object ts)"

subsection \<open>Sample inputs\<close>

text \<open>The record of the specification's scenario, its mapping, and its output line.\<close>

definition q1_record :: "(string \<times> json) list" where
  "q1_record =
     [(''QUESTION'', JStr ''Is X true?''),
      (''CONTEXTS'', JArr [JStr ''Evidence A'']),
      (''LABELS'', JArr [JStr ''L1'']),
      (''reasoning_required_pred'', JStr ''yes'')]"

definition q1_mapping :: "(string \<times> json) list" where
  "q1_mapping = [(''q1'', JObj q1_record)]"

definition q1_line :: string where
  "q1_line =
     ''{'' @ [dquote] @ ''input'' @ [dquote] @ '': '' @ [dquote] @
     ''QUESTION:Is X true?'' @ [bslash] @ ''nCONTEXT: Evidence A'' @ [bslash] @
     ''nTARGET: the answer to the question given the context is (yes|no|maybe): '' @ [dquote] @
     '', '' @ [dquote] @ ''output'' @ [dquote] @ '': '' @ [dquote] @ ''yes'' @ [dquote] @ ''}''"

definition q1_output :: json where
  "q1_output =
     JObj [(''input'', JStr (''QUESTION:Is X true?'' @ [newline] @ ''CONTEXT: Evidence A'' @ [newline] @
              ''TARGET: the answer to the question given the context is (yes|no|maybe): '')),
           (''output'', JStr ''yes'')]"

text \<open>A record with no context passages and no labels, and the record made from it.\<close>

definition bare_record :: "(string \<times> json) list" where
  "bare_record =
     [(''QUESTION'', JStr ''Q?''),
      (''CONTEXTS'', JArr []),
      (''LABELS'', JArr []),
      (''reasoning_required_pred'', JStr ''no'')]"

definition bare_output :: json where
  "bare_output =
     JObj [(''input'', JStr (''QUESTION:Q?'' @ [newline] @ ''CONTEXT: '' @
              ''TARGET: the answer to the question given the context is (yes|no|maybe): '')),
           (''output'', JStr ''no'')]"

definition two_mapping :: "(string \<times> json) list" where
  "two_mapping = [(''q1'', JObj q1_record), (''q2'', JObj bare_record)]"



text \<open>A record that carries a second answer-like field, \<^verbatim>\<open>final_decision\<close>.\<close>

definition two_answers_record :: "(string \<times> json) list" where
  "two_answers_record =
     [(''QUESTION'', JStr ''Q?''),
      (''CONTEXTS'', JArr []),
      (''LABELS'', JArr []),
      (''final_decision'', JStr ''no''),
      (''reasoning_required_pred'', JStr ''yes'')]"

text \<open>Records whose two sequences differ in length.\<close>

definition more_labels_record :: "(string \<times> json) list" where
  "more_labels_record =
     [(''QUESTION'', JStr ''Q?''),
      (''CONTEXTS'', JArr [JStr ''c0'']),
      (''LABELS'', JArr [JStr ''l0'', JStr ''l1'']),
      (''reasoning_required_pred'', JStr ''yes'')]"

definition more_contexts_record :: "(string \<times> json) list" where
  "more_contexts_record =
     [(''QUESTION'', JStr ''Q?''),
      (''CONTEXTS'', JArr [JStr ''c0'', JStr ''c1'']),
      (''LABELS'', JArr [JStr ''l0'']),
      (''reasoning_required_pred'', JStr ''yes'')]"

text \<open>
  A stand-in for \<^verbatim>\<open>json.load\<close> that knows one document: it reads the JSON text of \<open>v\<close>
  back as \<open>v\<close> and rejects every other text. \<open>world_with v lim\<close> is a world whose only file,
  \<^verbatim>\<open>data.json\<close>, holds that text, where every path can be opened for writing, files
  may grow up to \<open>lim\<close>, and a write buffer takes 8192 characters.
\<close>

definition load_only :: "json \<Rightarrow> string \<Rightarrow> py_error + json" where
  "load_only v txt = (if txt = json_dumps v then Inr v else Inl JSONDecodeError)"

definition world_with :: "json \<Rightarrow> nat option \<Rightarrow> world" where
  "world_with v lim =
     \<lparr>files = [''data.json'' \<mapsto> json_dumps v], writable = (\<lambda>p. True), fsize_limit = lim,
      buffer_size = 8192\<rparr>"

section \<open>Properties\<close>

subsection \<open>Auxiliary facts\<close>

lemma form_question_loop_in_range:
  "map_of r ''CONTEXTS'' = Some (JArr cs) \<Longrightarrow> i + length ls \<le> length cs \<Longrightarrow>
   form_question_loop (JObj r) i ls st =
     Inr (st @ concat (map (\<lambda>c. py_str c @ [newline]) (take (length ls) (drop i cs))))"
proof (induction ls arbitrary: i st)
  case Nil
  then show ?case by simp
next
  case (Cons l ls)
  from Cons.prems have lt: "i < length cs" and "Suc i + length ls \<le> length cs" by simp_all
  with Cons.IH [of "Suc i"] Cons.prems(1) show ?case
    by (simp add: py_getitem_str_def py_getitem_int_def Cons_nth_drop_Suc [OF lt, symmetric])
qed

lemma nth_upt_take: "n \<le> length cs \<Longrightarrow> map (\<lambda>i. f (cs ! i)) [0..<n] = map f (take n cs)"
  by (simp add: list_eq_iff_nth_eq)

lemma form_question_loop_out_of_range:
  "map_of r ''CONTEXTS'' = Some (JArr cs) \<Longrightarrow> i \<le> length cs \<Longrightarrow> length cs < i + length ls \<Longrightarrow>
   form_question_loop (JObj r) i ls st = Inl IndexError"
proof (induction ls arbitrary: i st)
  case Nil
  then show ?case by simp
next
  case (Cons l ls)
  show ?case
  proof (cases "i < length cs")
    case True
    with Cons.prems have "Suc i \<le> length cs" "length cs < Suc i + length ls" by simp_all
    with Cons.IH [of "Suc i"] Cons.prems(1) True show ?thesis
      by (simp add: py_getitem_str_def py_getitem_int_def)
  next
    case False
    with Cons.prems(1) show ?thesis
      by (simp add: py_getitem_str_def py_getitem_int_def)
  qed
qed

lemma form_question_array_record:
  assumes "map_of r ''QUESTION'' = Some q"
    and "map_of r ''CONTEXTS'' = Some (JArr cs)"
    and "map_of r ''LABELS'' = Some (JArr ls)"
  shows "form_question (JObj r) =
     (if length ls \<le> length cs
      then Inr (''QUESTION:'' @ py_str q @ [newline] @ ''CONTEXT: '' @
                concat (map (\<lambda>i. py_str (cs ! i) @ [newline]) [0..<length ls]) @
                instruction_suffix)
      else Inl IndexError)"
proof (cases "length ls \<le> length cs")
  case True
  then have "0 + length ls \<le> length cs" by simp
  from form_question_loop_in_range [OF assms(2) this] assms(1,3) True
    nth_upt_take [OF True, of "\<lambda>c. py_str c @ [newline]"]
  show ?thesis
    by (simp add: form_question_def py_getitem_str_def py_iter_def)
next
  case False
  then have "length cs < 0 + length ls" by simp
  from form_question_loop_out_of_range [OF assms(2) _ this] assms(1,3) False show ?thesis
    by (simp add: form_question_def py_getitem_str_def py_iter_def)
qed

lemma form_question_ends_with_suffix:
  "form_question obj = Inr st \<Longrightarrow> \<exists>pre. st = pre @ instruction_suffix"
  by (auto simp: form_question_def split: sum.splits)

lemma valid_record_shape:
  assumes "valid_record obj"
  obtains r q cs ls a where "obj = JObj r"
    "map_of r ''QUESTION'' = Some (JStr q)" "map_of r ''CONTEXTS'' = Some (JArr cs)"
    "map_of r ''LABELS'' = Some (JArr ls)" "map_of r ''reasoning_required_pred'' = Some (JStr a)"
    "list_all is_str cs" "list_all is_str ls" "length ls = length cs"
  using assms unfolding valid_record_def
  by (auto split: json.splits option.splits)

lemma convert_loop_sound:
  "convert_loop data ks acc = Inr objs \<Longrightarrow>
   \<exists>new. objs = acc @ new \<and>
     list_all2 (\<lambda>k r. \<exists>obj. py_getitem_str data k = Inr obj \<and> converts_to obj r) ks new"
proof (induction ks arbitrary: acc)
  case Nil
  then show ?case by simp
next
  case (Cons k ks)
  from Cons.prems obtain obj prompt completion where
    obj: "py_getitem_str data k = Inr obj" and
    p: "form_question obj = Inr prompt" and
    c: "py_getitem_str obj ''reasoning_required_pred'' = Inr completion" and
    rest: "convert_loop data ks (acc @ [JObj [(''input'', JStr prompt), (''output'', completion)]]) = Inr objs"
    by (auto split: sum.splits)
  from Cons.IH [OF rest] obtain new where
    new: "objs = (acc @ [JObj [(''input'', JStr prompt), (''output'', completion)]]) @ new"
      "list_all2 (\<lambda>k r. \<exists>obj. py_getitem_str data k = Inr obj \<and> converts_to obj r) ks new"
    by blast
  have "converts_to obj (JObj [(''input'', JStr prompt), (''output'', completion)])"
    by (simp add: converts_to_def p c)
  with obj new show ?case
    by (intro exI [of _ "JObj [(''input'', JStr prompt), (''output'', completion)] # new"]) auto
qed

lemma convert_loop_complete:
  "list_all2 (\<lambda>k r. \<exists>obj. py_getitem_str data k = Inr obj \<and> converts_to obj r) ks new \<Longrightarrow>
   convert_loop data ks acc = Inr (acc @ new)"
proof (induction ks arbitrary: acc new)
  case Nil
  then show ?case by simp
next
  case (Cons k ks)
  from Cons.prems obtain r new' obj where
    new: "new = r # new'" and obj: "py_getitem_str data k = Inr obj" and r: "converts_to obj r" and
    rest: "list_all2 (\<lambda>k r. \<exists>obj. py_getitem_str data k = Inr obj \<and> converts_to obj r) ks new'"
    by (auto simp: list_all2_Cons1)
  from r obtain prompt completion where
    p: "form_question obj = Inr prompt" and
    c: "py_getitem_str obj ''reasoning_required_pred'' = Inr completion" and
    r_eq: "r = JObj [(''input'', JStr prompt), (''output'', completion)]"
    by (auto simp: converts_to_def split: sum.splits)
  from Cons.IH [OF rest, of "acc @ [r]"] obj p c r_eq new show ?case by simp
qed

lemma getitem_of_distinct:
  "distinct (map fst kvs) \<Longrightarrow> kv \<in> set kvs \<Longrightarrow> py_getitem_str (JObj kvs) (fst kv) = Inr (snd kv)"
  by (cases kv) (simp add: py_getitem_str_def)

lemma records_by_key:
  assumes "distinct (map fst kvs)"
  shows "list_all2 (\<lambda>k r. \<exists>obj. py_getitem_str (JObj kvs) k = Inr obj \<and> converts_to obj r) (map fst kvs) new
     \<longleftrightarrow> list_all2 (\<lambda>kv r. converts_to (snd kv) r) kvs new"
proof -
  have "list_all2 (\<lambda>kv r. \<exists>obj. py_getitem_str (JObj kvs) (fst kv) = Inr obj \<and> converts_to obj r) kvs new
     \<longleftrightarrow> list_all2 (\<lambda>kv r. converts_to (snd kv) r) kvs new"
    by (rule list.rel_cong [OF refl refl]) (simp add: getitem_of_distinct [OF assms])
  then show ?thesis by (simp add: list_all2_map1)
qed

lemma list_all2_exists:
  "list_all (\<lambda>x. \<exists>y. R x y) xs \<Longrightarrow> \<exists>ys. list_all2 R xs ys"
proof (induction xs)
  case Nil
  show ?case by simp
next
  case (Cons x xs)
  then obtain y ys where "R x y" "list_all2 R xs ys" by auto
  then have "list_all2 R (x # xs) (y # ys)" by simp
  then show ?case ..
qed

lemma put_file_simps [simp]:
  "files (put_file p txt w) = (files w)(p \<mapsto> txt)"
  "writable (put_file p txt w) = writable w"
  "fsize_limit (put_file p txt w) = fsize_limit w"
  "buffer_size (put_file p txt w) = buffer_size w"
  "put_file p b (put_file p a w) = put_file p b w"
  by (simp_all add: put_file_def)

lemma put_file_same: "files w p = Some c \<Longrightarrow> put_file p c w = w"
  by (simp add: put_file_def map_upd_triv)

lemma jsonl_text_simps [simp]:
  "jsonl_text [] = []"
  "jsonl_text (obj # objs) = json_dumps obj @ [newline] @ jsonl_text objs"
  by (simp_all add: jsonl_text_def)

lemma f_flush_fits:
  assumes "files w p = Some old"
    and "\<And>m. fsize_limit w = Some m \<Longrightarrow> length old + length buf \<le> m"
  shows "f_flush p buf w = (Inr (), [], put_file p (old @ buf) w)"
proof (cases "fsize_limit w")
  case None
  with assms(1) show ?thesis by (simp add: f_flush_def)
next
  case (Some m)
  with assms(2) have "length buf \<le> m - length old" by fastforce
  with Some assms(1) show ?thesis by (simp add: f_flush_def min_absorb1)
qed

lemma f_flush_over:
  assumes "files w p = Some old" and "fsize_limit w = Some m"
    and "length old \<le> m" and "m < length old + length buf"
  shows "f_flush p buf w =
     (Inl OSError, drop (m - length old) buf, put_file p (take m (old @ buf)) w)"
proof -
  from assms(3,4) have "m - length old < length buf" by simp
  then have "min (length buf) (m - length old) = m - length old"
    and "m - length old \<noteq> length buf"
    by simp_all
  moreover from assms(3) have "take m (old @ buf) = old @ take (m - length old) buf"
    by simp
  ultimately show ?thesis
    using assms(1,2) by (simp add: f_flush_def Let_def)
qed

lemma write_jsonl_loop_state:
  assumes "files w p = Some old"
    and "\<And>m. fsize_limit w = Some m \<Longrightarrow> length old \<le> m"
    and "write_jsonl_loop p objs buf w = (r, buf', w')"
  shows "\<exists>old'. w' = put_file p old' w \<and>
     (r = Inr () \<longrightarrow>
        old' @ buf' = old @ buf @ jsonl_text objs \<and>
        (\<forall>m. fsize_limit w = Some m \<longrightarrow> length old' \<le> m)) \<and>
     (r \<noteq> Inr () \<longrightarrow>
        r = Inl OSError \<and> buf' \<noteq> [] \<and>
        (\<exists>m. fsize_limit w = Some m \<and> m < length (old @ buf @ jsonl_text objs) \<and>
             old' = take m (old @ buf @ jsonl_text objs)))"
  using assms
proof (induction objs arbitrary: buf w old)
  case Nil
  then show ?case
    by (intro exI [of _ old]) (auto simp: put_file_same)
next
  case (Cons obj objs)
  let ?line = "json_dumps obj @ [newline]"
  show ?case
  proof (cases "buffer_size w < length (buf @ ?line)")
    case False
    with Cons.prems(3) have "write_jsonl_loop p objs (buf @ ?line) w = (r, buf', w')"
      by (simp add: f_write_def)
    from Cons.IH [OF Cons.prems(1,2) this] obtain old' where
      "w' = put_file p old' w"
      "r = Inr () \<longrightarrow>
        old' @ buf' = old @ (buf @ ?line) @ jsonl_text objs \<and>
        (\<forall>m. fsize_limit w = Some m \<longrightarrow> length old' \<le> m)"
      "r \<noteq> Inr () \<longrightarrow>
        r = Inl OSError \<and> buf' \<noteq> [] \<and>
        (\<exists>m. fsize_limit w = Some m \<and> m < length (old @ (buf @ ?line) @ jsonl_text objs) \<and>
             old' = take m (old @ (buf @ ?line) @ jsonl_text objs))"
      by blast
    then show ?thesis
      by (intro exI [of _ old']) simp
  next
    case True
    note flush = this
    show ?thesis
    proof (cases "\<forall>m. fsize_limit w = Some m \<longrightarrow> length old + length (buf @ ?line) \<le> m")
      case True
      then have "f_flush p (buf @ ?line) w = (Inr (), [], put_file p (old @ buf @ ?line) w)"
        using f_flush_fits [OF Cons.prems(1), of "buf @ ?line"] by simp
      with flush Cons.prems(3)
      have step: "write_jsonl_loop p objs [] (put_file p (old @ buf @ ?line) w) = (r, buf', w')"
        by (simp add: f_write_def)
      have "files (put_file p (old @ buf @ ?line) w) p = Some (old @ buf @ ?line)" by simp
      moreover have "length (old @ buf @ ?line) \<le> m"
        if "fsize_limit (put_file p (old @ buf @ ?line) w) = Some m" for m
        using that True by simp
      ultimately obtain old' where
        "w' = put_file p old' (put_file p (old @ buf @ ?line) w)"
        "r = Inr () \<longrightarrow>
           old' @ buf' = (old @ buf @ ?line) @ [] @ jsonl_text objs \<and>
           (\<forall>m. fsize_limit (put_file p (old @ buf @ ?line) w) = Some m \<longrightarrow> length old' \<le> m)"
        "r \<noteq> Inr () \<longrightarrow>
           r = Inl OSError \<and> buf' \<noteq> [] \<and>
           (\<exists>m. fsize_limit (put_file p (old @ buf @ ?line) w) = Some m \<and>
              m < length ((old @ buf @ ?line) @ [] @ jsonl_text objs) \<and>
              old' = take m ((old @ buf @ ?line) @ [] @ jsonl_text objs))"
        using Cons.IH [OF _ _ step] by blast
      then show ?thesis
        by (intro exI [of _ old']) simp
    next
      case False
      then obtain m where m: "fsize_limit w = Some m" "m < length old + length (buf @ ?line)"
        by (auto simp: not_le)
      from Cons.prems(2) [OF m(1)] have le: "length old \<le> m" .
      from f_flush_over [OF Cons.prems(1) m(1) le m(2)] flush Cons.prems(3)
      have r: "r = Inl OSError" and buf': "buf' = drop (m - length old) (buf @ ?line)"
        and w': "w' = put_file p (take m (old @ buf @ ?line)) w"
        by (simp_all add: f_write_def)
      from le m(2) have "buf' \<noteq> []" by (simp add: buf')
      moreover from m(2) have "take m (old @ buf @ ?line) = take m (old @ buf @ ?line @ jsonl_text objs)"
        by simp
      ultimately show ?thesis
        using r w' m by (intro exI [of _ "take m (old @ buf @ ?line)"]) simp
    qed
  qed
qed

lemma write_jsonl_result:
  "write_jsonl p objs w =
     (if \<not> writable w p then (Inl OSError, w)
      else case fsize_limit w of
        None \<Rightarrow> (Inr (), put_file p (jsonl_text objs) w)
      | Some m \<Rightarrow>
          if length (jsonl_text objs) \<le> m then (Inr (), put_file p (jsonl_text objs) w)
          else (Inl OSError, put_file p (take m (jsonl_text objs)) w))"
proof (cases "writable w p")
  case False
  then show ?thesis by (simp add: write_jsonl_def open_wt_def)
next
  case True
  let ?w = "put_file p [] w"
  obtain r buf' w' where loop: "write_jsonl_loop p objs [] ?w = (r, buf', w')"
    by (cases "write_jsonl_loop p objs [] ?w")
  have "files ?w p = Some []" by simp
  moreover have "length ([] :: string) \<le> m" for m by simp
  ultimately have "\<exists>old'. w' = put_file p old' ?w \<and>
     (r = Inr () \<longrightarrow>
        old' @ buf' = [] @ [] @ jsonl_text objs \<and>
        (\<forall>m. fsize_limit ?w = Some m \<longrightarrow> length old' \<le> m)) \<and>
     (r \<noteq> Inr () \<longrightarrow>
        r = Inl OSError \<and> buf' \<noteq> [] \<and>
        (\<exists>m. fsize_limit ?w = Some m \<and> m < length ([] @ [] @ jsonl_text objs) \<and>
             old' = take m ([] @ [] @ jsonl_text objs)))"
    using loop by (rule write_jsonl_loop_state)
  then obtain old' where
    w': "w' = put_file p old' w" and
    ok: "r = Inr () \<longrightarrow>
        old' @ buf' = jsonl_text objs \<and> (\<forall>m. fsize_limit w = Some m \<longrightarrow> length old' \<le> m)" and
    bad: "r \<noteq> Inr () \<longrightarrow>
        r = Inl OSError \<and> buf' \<noteq> [] \<and>
        (\<exists>m. fsize_limit w = Some m \<and> m < length (jsonl_text objs) \<and>
             old' = take m (jsonl_text objs))"
    by auto
  have old': "files w' p = Some old'" by (simp add: w')
  show ?thesis
  proof (cases "r = Inr ()")
    case False
    with bad obtain m where r: "r = Inl OSError" and ne: "buf' \<noteq> []" and
      m: "fsize_limit w = Some m" "m < length (jsonl_text objs)" "old' = take m (jsonl_text objs)"
      by auto
    from m(2,3) have len: "length old' = m" by simp
    have "f_flush p buf' w' =
        (Inl OSError, drop (m - length old') buf', put_file p (take m (old' @ buf')) w')"
      by (rule f_flush_over [OF old']) (use m(1) len ne in \<open>simp_all add: w'\<close>)
    with len have "f_close p buf' w' = (Inl OSError, put_file p old' w')"
      by (simp add: f_close_def)
    with loop r True m show ?thesis
      by (simp add: write_jsonl_def open_wt_def w')
  next
    case r: True
    with ok have all: "old' @ buf' = jsonl_text objs"
      and le: "\<And>m. fsize_limit w = Some m \<Longrightarrow> length old' \<le> m"
      by auto
    show ?thesis
    proof (cases "\<forall>m. fsize_limit w = Some m \<longrightarrow> length (jsonl_text objs) \<le> m")
      case True
      have "f_flush p buf' w' = (Inr (), [], put_file p (old' @ buf') w')"
        by (rule f_flush_fits [OF old']) (use True all in \<open>simp add: w' flip: length_append\<close>)
      then have "f_close p buf' w' = (Inr (), put_file p (jsonl_text objs) w)"
        by (simp add: f_close_def all w')
      with loop r \<open>writable w p\<close> True show ?thesis
        by (simp add: write_jsonl_def open_wt_def split: option.splits)
    next
      case False
      then obtain m where m: "fsize_limit w = Some m" "m < length (jsonl_text objs)"
        by (auto simp: not_le)
      have "f_flush p buf' w' =
          (Inl OSError, drop (m - length old') buf', put_file p (take m (old' @ buf')) w')"
        by (rule f_flush_over [OF old'])
          (use m le [OF m(1)] all in \<open>simp_all add: w' flip: length_append\<close>)
      then have "f_close p buf' w' = (Inl OSError, put_file p (take m (jsonl_text objs)) w)"
        by (simp add: f_close_def all w')
      with loop r \<open>writable w p\<close> m show ?thesis
        by (simp add: write_jsonl_def open_wt_def)
    qed
  qed
qed

lemma write_jsonl_cases:
  assumes "write_jsonl p objs w = (r, w')"
  shows "(r = Inl OSError \<and> w' = w) \<or>
     (r = Inr () \<and> w' = put_file p (jsonl_text objs) w) \<or>
     (r = Inl OSError \<and>
        (\<exists>m. fsize_limit w = Some m \<and> m < length (jsonl_text objs) \<and>
           w' = put_file p (take m (jsonl_text objs)) w))"
  using assms unfolding write_jsonl_result
  by (auto split: if_splits option.splits)

lemma write_jsonl_ok:
  "writable w p \<Longrightarrow> fsize_limit w = None \<Longrightarrow>
   write_jsonl p objs w = (Inr (), put_file p (jsonl_text objs) w)"
  by (simp add: write_jsonl_result)

lemma digit_no_newline:
  fixes k :: nat
  assumes "k < 10"
  shows "char_of (48 + k) \<noteq> newline"
proof
  assume "char_of (48 + k) = newline"
  then have "(of_char (char_of (48 + k)) :: nat) = of_char newline"
    by (rule arg_cong)
  then have "(48 + k) mod 256 = 10" by simp
  with assms show False by simp
qed

lemma hex_digit_no_newline: "hex_digit d \<noteq> newline"
proof -
  have "d mod 16 < length ''0123456789abcdef''" by simp
  then have "hex_digit d \<in> set ''0123456789abcdef''"
    unfolding hex_digit_def by (rule nth_mem)
  then show ?thesis by auto
qed

lemma show_nat_no_newline: "newline \<notin> set (show_nat n)"
proof (induction n rule: show_nat.induct)
  case (1 n)
  show ?case
  proof (cases "n < 10")
    case True
    then show ?thesis using digit_no_newline [of n] by (subst show_nat.simps) simp
  next
    case False
    have "n mod 10 < 10" by simp
    with False 1 digit_no_newline [of "n mod 10"] show ?thesis by (subst show_nat.simps) simp
  qed
qed

lemma show_int_no_newline: "newline \<notin> set (show_int i)"
  by (simp add: show_int_def show_nat_no_newline)

lemma newline_no_hex_digit: "newline \<noteq> hex_digit d"
  using hex_digit_no_newline [of d] by (rule not_sym)

lemma ascii_escape_char_no_newline: "newline \<notin> set (ascii_escape_char c)"
  by (simp add: ascii_escape_char_def Let_def hex_digit_no_newline newline_no_hex_digit)

lemma dumps_str_no_newline: "newline \<notin> set (dumps_str s)"
  by (auto simp: dumps_str_def ascii_escape_char_no_newline)

lemma join_no_newline:
  "newline \<notin> set sep \<Longrightarrow> (\<And>x. x \<in> set xs \<Longrightarrow> newline \<notin> set x) \<Longrightarrow> newline \<notin> set (join sep xs)"
  by (induction sep xs rule: join.induct) auto

lemma json_dumps_no_newline: "newline \<notin> set (json_dumps v)"
proof (induction v)
  case (JArr xs)
  have "newline \<notin> set (join '', '' (map json_dumps xs))"
    by (rule join_no_newline) (use JArr in auto)
  then show ?case by simp
next
  case (JObj kvs)
  have "newline \<notin> set (join '', '' (map (\<lambda>(k, v). dumps_str k @ '': '' @ json_dumps v) kvs))"
  proof (rule join_no_newline)
    show "newline \<notin> set '', ''" by simp
  next
    fix x assume "x \<in> set (map (\<lambda>(k, v). dumps_str k @ '': '' @ json_dumps v) kvs)"
    then obtain k v where kv: "(k, v) \<in> set kvs" and x: "x = dumps_str k @ '': '' @ json_dumps v"
      by auto
    from kv JObj have "newline \<notin> set (json_dumps v)" by fastforce
    with x show "newline \<notin> set x" by (simp add: dumps_str_no_newline)
  qed
  then show ?case by simp
qed (simp_all add: show_int_no_newline dumps_str_no_newline)

lemma lines_from_line:
  "newline \<notin> set l \<Longrightarrow> lines_from cur (l @ newline # rest) = (cur @ l) # lines_from [] rest"
  by (induction l arbitrary: cur) auto

lemma lines_of_jsonl_text: "lines_of (jsonl_text objs) = map json_dumps objs"
proof -
  have "lines_from [] (jsonl_text objs) = map json_dumps objs"
  proof (induction objs)
    case Nil
    show ?case by (simp add: jsonl_text_def)
  next
    case (Cons obj objs)
    have "jsonl_text (obj # objs) = json_dumps obj @ newline # jsonl_text objs"
      by (simp add: jsonl_text_def)
    with Cons lines_from_line [OF json_dumps_no_newline, of "[]" obj "jsonl_text objs"]
    show ?case by simp
  qed
  then show ?thesis by (simp add: lines_of_def)
qed

lemma hex_val_hex_digit: "d < 16 \<Longrightarrow> hex_val (hex_digit d) = Some d"
proof -
  assume "d < 16"
  then consider "d = 0" | "d = 1" | "d = 2" | "d = 3" | "d = 4" | "d = 5" | "d = 6" | "d = 7"
    | "d = 8" | "d = 9" | "d = 10" | "d = 11" | "d = 12" | "d = 13" | "d = 14" | "d = 15"
    by (auto simp: less_Suc_eq numeral_eq_Suc)
  then show ?thesis
    by cases (simp_all add: hex_val_def hex_digit_def)
qed

lemma hex4_of_char:
  "hex4 CHR ''0'' CHR ''0'' (hex_digit (of_char c div 16)) (hex_digit (of_char c mod 16)) = Some (of_char c)"
proof -
  have lt: "(of_char c :: nat) < 256"
    by (rule nat_of_char_less_256)
  then have a: "(of_char c :: nat) div 16 < 16" by (simp add: less_mult_imp_div_less)
  have b: "(of_char c :: nat) mod 16 < 16" by simp
  show ?thesis
    by (simp add: hex4_def hex_val_hex_digit [OF a] hex_val_hex_digit [OF b]) (simp add: hex_val_def)
qed

lemma lex_str_escape_char:
  "lex_str acc (ascii_escape_char c @ rest) = lex_str (acc @ [c]) rest"
proof -
  have lt: "(of_char c :: nat) < 256" by (rule nat_of_char_less_256)
  consider (dq) "c = dquote" | (bs) "c = bslash" | (nl) "c = newline" | (cr) "c = CHR 0x0D"
    | (tab) "c = CHR 0x09" | (b) "c = CHR 0x08" | (f) "c = CHR 0x0C"
    | (plain) "c \<noteq> dquote" "c \<noteq> bslash" "32 \<le> (of_char c :: nat)" "(of_char c :: nat) \<le> 126"
    | (other) "c \<noteq> dquote" "c \<noteq> bslash" "c \<noteq> newline" "c \<noteq> CHR 0x0D" "c \<noteq> CHR 0x09"
        "c \<noteq> CHR 0x08" "c \<noteq> CHR 0x0C" "\<not> (32 \<le> (of_char c :: nat) \<and> (of_char c :: nat) \<le> 126)"
    by blast
  then show ?thesis
  proof cases
    case plain
    then have "ascii_escape_char c = [c]"
      by (auto simp: ascii_escape_char_def Let_def)
    with plain show ?thesis by simp
  next
    case other
    then have "ascii_escape_char c =
        [bslash, CHR ''u'', CHR ''0'', CHR ''0'', hex_digit (of_char c div 16), hex_digit (of_char c mod 16)]"
      by (simp add: ascii_escape_char_def Let_def)
    then show ?thesis
      using lt by (simp add: hex4_of_char)
  qed (simp_all add: ascii_escape_char_def simple_escape_def)
qed

lemma lex_str_escaped:
  "lex_str acc (concat (map ascii_escape_char s) @ dquote # rest) = map_option (Cons (TStr (acc @ s))) (lex rest)"
proof (induction s arbitrary: acc)
  case Nil
  show ?case by simp
next
  case (Cons c s)
  have "lex_str acc (concat (map ascii_escape_char (c # s)) @ dquote # rest) =
        lex_str acc (ascii_escape_char c @ (concat (map ascii_escape_char s) @ dquote # rest))"
    by simp
  also have "\<dots> = lex_str (acc @ [c]) (concat (map ascii_escape_char s) @ dquote # rest)"
    by (rule lex_str_escape_char)
  also have "\<dots> = map_option (Cons (TStr ((acc @ [c]) @ s))) (lex rest)"
    by (rule Cons.IH)
  finally show ?case by simp
qed

lemma lex_dumps_str:
  "lex (dumps_str s @ rest) = map_option (Cons (TStr s)) (lex rest)"
  using lex_str_escaped [of "[]" s rest] by (simp add: dumps_str_def)

lemma decode_two_strings:
  "decode_line (json_dumps (JObj [(''input'', JStr a), (''output'', JStr b)])) =
     Some [(''input'', a), (''output'', b)]"
proof -
  have "json_dumps (JObj [(''input'', JStr a), (''output'', JStr b)]) =
      CHR ''{'' # dumps_str ''input'' @ CHR '':'' # CHR '' '' # dumps_str a @
      CHR '','' # CHR '' '' # dumps_str ''output'' @ CHR '':'' # CHR '' '' # dumps_str b @ [CHR ''}'']"
    by simp
  then show ?thesis
    by (simp add: decode_line_def lex_dumps_str)
qed

lemma valid_record_converts:
  assumes "valid_record obj"
  shows "\<exists>p a. converts_to obj (JObj [(''input'', JStr p), (''output'', JStr a)])"
proof -
  from assms obtain r q cs ls a where obj: "obj = JObj r"
    and f: "map_of r ''QUESTION'' = Some (JStr q)" "map_of r ''CONTEXTS'' = Some (JArr cs)"
      "map_of r ''LABELS'' = Some (JArr ls)"
    and a: "map_of r ''reasoning_required_pred'' = Some (JStr a)"
    and len: "length ls = length cs"
    by (rule valid_record_shape)
  from form_question_array_record [OF f] len obtain p where "form_question (JObj r) = Inr p"
    by simp
  with a obj have "converts_to obj (JObj [(''input'', JStr p), (''output'', JStr a)])"
    by (simp add: converts_to_def py_getitem_str_def)
  then show ?thesis by blast
qed

lemma convert_to_jsonl_runs:
  assumes src: "files w data_path = Some doc" "json_load doc = Inr (JObj kvs)"
    and keys: "distinct (map fst kvs)"
    and recs: "list_all2 (\<lambda>kv rec. converts_to (snd kv) rec) kvs objs"
    and out: "writable w output_path" "fsize_limit w = None"
  shows "convert_to_jsonl json_load data_path output_path w =
     (Inr objs, put_file output_path (jsonl_text objs) w)"
proof -
  from recs have "list_all2 (\<lambda>k r. \<exists>obj. py_getitem_str (JObj kvs) k = Inr obj \<and> converts_to obj r)
      (map fst kvs) objs"
    by (simp only: records_by_key [OF keys])
  from convert_loop_complete [OF this, of "[]"]
  have "convert_loop (JObj kvs) (map fst kvs) [] = Inr objs" by simp
  with src write_jsonl_ok [OF out, of objs] show ?thesis
    by (simp add: convert_to_jsonl_def open_rt_def py_keys_def)
qed

lemma convert_to_jsonl_returns:
  assumes run: "convert_to_jsonl json_load data_path output_path w = (Inr objs, w')"
    and src: "files w data_path = Some doc" "json_load doc = Inr (JObj kvs)"
    and keys: "distinct (map fst kvs)"
  shows "list_all2 (\<lambda>kv rec. converts_to (snd kv) rec) kvs objs \<and>
     w' = put_file output_path (jsonl_text objs) w"
proof -
  from run src obtain u where
    loop: "convert_loop (JObj kvs) (map fst kvs) [] = Inr objs" and
    wr: "write_jsonl output_path objs w = (Inr u, w')"
    by (auto simp: convert_to_jsonl_def open_rt_def py_keys_def split: sum.splits prod.splits)
  from convert_loop_sound [OF loop]
  have "list_all2 (\<lambda>k r. \<exists>obj. py_getitem_str (JObj kvs) k = Inr obj \<and> converts_to obj r)
      (map fst kvs) objs"
    by simp
  then have "list_all2 (\<lambda>kv rec. converts_to (snd kv) rec) kvs objs"
    by (simp only: records_by_key [OF keys])
  moreover from write_jsonl_cases [OF wr] have "w' = put_file output_path (jsonl_text objs) w"
    by auto
  ultimately show ?thesis by simp
qed

lemma valid_mapping_records:
  assumes "valid_mapping kvs"
  shows "\<exists>objs. list_all2 (\<lambda>kv rec. converts_to (snd kv) rec \<and>
            (\<exists>p a. rec = JObj [(''input'', JStr p), (''output'', JStr a)])) kvs objs"
proof (rule list_all2_exists)
  from assms have "list_all (\<lambda>kv. valid_record (snd kv)) kvs"
    by (simp add: valid_mapping_def)
  then show "list_all (\<lambda>kv. \<exists>rec. converts_to (snd kv) rec \<and>
            (\<exists>p a. rec = JObj [(''input'', JStr p), (''output'', JStr a)])) kvs"
  proof (rule list.pred_mono_strong)
    fix kv assume "valid_record (snd kv)"
    from valid_record_converts [OF this]
    show "\<exists>rec. converts_to (snd kv) rec \<and>
            (\<exists>p a. rec = JObj [(''input'', JStr p), (''output'', JStr a)])"
      by blast
  qed
qed

lemma list_all2_right: "list_all2 (\<lambda>x y. P y) xs ys \<Longrightarrow> list_all P ys"
  by (induction xs ys rule: list_all2_induct) simp_all

lemma q1_converts:
  "converts_to (JObj q1_record)
     (JObj [(''input'', JStr (''QUESTION:Is X true?'' @ [newline] @ ''CONTEXT: Evidence A'' @ [newline] @
               ''TARGET: the answer to the question given the context is (yes|no|maybe): '')),
            (''output'', JStr ''yes'')])"
  by (simp add: converts_to_def q1_record_def form_question_def py_getitem_str_def py_iter_def
      py_getitem_int_def py_str_def instruction_suffix_def)

lemma q1_dumps:
  "json_dumps
     (JObj [(''input'', JStr (''QUESTION:Is X true?'' @ [newline] @ ''CONTEXT: Evidence A'' @ [newline] @
               ''TARGET: the answer to the question given the context is (yes|no|maybe): '')),
            (''output'', JStr ''yes'')]) = q1_line"
  by (simp add: dumps_str_def ascii_escape_char_def q1_line_def)

lemma write_jsonl_again:
  "writable w p \<Longrightarrow> write_jsonl p objs (put_file p x w) = write_jsonl p objs w"
  by (simp add: write_jsonl_def open_wt_def)

lemma convert_to_jsonl_cases:
  assumes "convert_to_jsonl json_load data_path output_path w = (r, w')"
  shows "(\<exists>e. r = Inl e \<and> w' = w) \<or>
     (\<exists>doc data ks objs r'. files w data_path = Some doc \<and> json_load doc = Inr data \<and>
        py_keys data = Inr ks \<and> convert_loop data ks [] = Inr objs \<and>
        write_jsonl output_path objs w = (r', w') \<and>
        r = (case r' of Inl e \<Rightarrow> Inl e | Inr u \<Rightarrow> Inr objs))"
proof (cases "files w data_path")
  case None
  with assms have "r = Inl OSError \<and> w' = w"
    by (auto simp: convert_to_jsonl_def open_rt_def)
  then show ?thesis by blast
next
  case (Some doc)
  note doc = this
  show ?thesis
  proof (cases "json_load doc")
    case (Inl e)
    with assms doc have "r = Inl e \<and> w' = w"
      by (auto simp: convert_to_jsonl_def open_rt_def)
    then show ?thesis by blast
  next
    case (Inr data)
    note data = this
    show ?thesis
    proof (cases "py_keys data")
      case (Inl e)
      with assms doc data have "r = Inl e \<and> w' = w"
        by (auto simp: convert_to_jsonl_def open_rt_def)
      then show ?thesis by blast
    next
      case (Inr ks)
      note ks = this
      show ?thesis
      proof (cases "convert_loop data ks []")
        case (Inl e)
        with assms doc data ks have "r = Inl e \<and> w' = w"
          by (auto simp: convert_to_jsonl_def open_rt_def)
        then show ?thesis by blast
      next
        case (Inr objs)
        obtain r' w'' where wr: "write_jsonl output_path objs w = (r', w'')"
          by (cases "write_jsonl output_path objs w")
        with assms doc data ks Inr
        have "w'' = w'" and "r = (case r' of Inl e \<Rightarrow> Inl e | Inr u \<Rightarrow> Inr objs)"
          by (auto simp: convert_to_jsonl_def open_rt_def split: sum.splits)
        with wr doc data ks Inr show ?thesis by blast
      qed
    qed
  qed
qed

lemma form_question_prompt_of:
  assumes "map_of r ''QUESTION'' = Some q"
    and "map_of r ''CONTEXTS'' = Some (JArr cs)"
    and "map_of r ''LABELS'' = Some (JArr ls)"
    and "length ls \<le> length cs"
  shows "form_question (JObj r) = Inr (prompt_of q (take (length ls) cs))"
  using form_question_array_record [OF assms(1-3)] assms(4)
    nth_upt_take [OF assms(4), of "\<lambda>c. py_str c @ [newline]"]
  by (simp add: prompt_of_def)

lemma two_mapping_valid: "valid_mapping two_mapping"
  by (simp add: valid_mapping_def two_mapping_def valid_record_def q1_record_def bare_record_def
      is_str_def)

lemma world_with_simps:
  "files (world_with v lim) ''data.json'' = Some (json_dumps v)"
  "writable (world_with v lim) p"
  "fsize_limit (world_with v lim) = lim"
  "buffer_size (world_with v lim) = 8192"
  by (simp_all add: world_with_def)

lemma load_only_same: "load_only v (json_dumps v) = Inr v"
  by (simp add: load_only_def)

lemma converts_to_output:
  "converts_to obj rec \<Longrightarrow>
   \<exists>a. py_getitem_str obj ''reasoning_required_pred'' = Inr a \<and> py_getitem_str rec ''output'' = Inr a"
  by (auto simp: converts_to_def py_getitem_str_def split: sum.splits)

lemma two_answers_converts:
  "converts_to (JObj two_answers_record)
     (JObj [(''input'', JStr (''QUESTION:Q?'' @ [newline] @ ''CONTEXT: '' @
               ''TARGET: the answer to the question given the context is (yes|no|maybe): '')),
            (''output'', JStr ''yes'')])"
  by (simp add: converts_to_def two_answers_record_def form_question_def py_getitem_str_def
      py_iter_def py_str_def instruction_suffix_def)

lemma two_answers_run:
  "convert_to_jsonl (load_only (JObj [(''q1'', JObj two_answers_record)])) ''data.json'' ''out.jsonl''
     (world_with (JObj [(''q1'', JObj two_answers_record)]) None) =
   (Inr [JObj [(''input'', JStr (''QUESTION:Q?'' @ [newline] @ ''CONTEXT: '' @
               ''TARGET: the answer to the question given the context is (yes|no|maybe): '')),
            (''output'', JStr ''yes'')]],
    put_file ''out.jsonl''
      (jsonl_text [JObj [(''input'', JStr (''QUESTION:Q?'' @ [newline] @ ''CONTEXT: '' @
               ''TARGET: the answer to the question given the context is (yes|no|maybe): '')),
            (''output'', JStr ''yes'')]])
      (world_with (JObj [(''q1'', JObj two_answers_record)]) None))"
proof -
  have keys: "distinct (map fst [(''q1'', JObj two_answers_record)])" by simp
  have recs: "list_all2 (\<lambda>kv rec. converts_to (snd kv) rec) [(''q1'', JObj two_answers_record)]
      [JObj [(''input'', JStr (''QUESTION:Q?'' @ [newline] @ ''CONTEXT: '' @
               ''TARGET: the answer to the question given the context is (yes|no|maybe): '')),
            (''output'', JStr ''yes'')]]"
    using two_answers_converts by simp
  show ?thesis
    by (rule convert_to_jsonl_runs
        [where json_load = "load_only (JObj [(''q1'', JObj two_answers_record)])",
          OF world_with_simps(1) load_only_same keys recs world_with_simps(2,3)])
qed





lemma q1_output_dumps: "json_dumps q1_output = q1_line"
  using q1_dumps by (simp add: q1_output_def)






lemma sample_writes_return_close_raises:
  "write_jsonl_loop ''out.jsonl'' [q1_output, bare_output] []
     (put_file ''out.jsonl'' [] (world_with (JObj two_mapping) (Some (length q1_line + 5)))) =
   (Inr (), jsonl_text [q1_output, bare_output],
    put_file ''out.jsonl'' [] (world_with (JObj two_mapping) (Some (length q1_line + 5)))) \<and>
   fst (f_close ''out.jsonl'' (jsonl_text [q1_output, bare_output])
     (put_file ''out.jsonl'' [] (world_with (JObj two_mapping) (Some (length q1_line + 5))))) =
   Inl OSError"
proof -
  let ?w = "put_file ''out.jsonl'' [] (world_with (JObj two_mapping) (Some (length q1_line + 5)))"
  have size: "buffer_size ?w = 8192" by (simp add: world_with_simps)
  have l1: "length (json_dumps q1_output) = 144"
    by (simp add: q1_output_dumps q1_line_def)
  have l2: "length (json_dumps bare_output) = 123"
    by (simp add: bare_output_def dumps_str_def ascii_escape_char_def)
  have loop: "write_jsonl_loop ''out.jsonl'' [q1_output, bare_output] [] ?w =
      (Inr (), jsonl_text [q1_output, bare_output], ?w)"
    by (simp add: f_write_def size l1 l2 del: put_file_simps)
  have "length q1_line = 144" using l1 by (simp add: q1_output_dumps)
  then have over: "length q1_line + 5 < length ([] :: string) + length (jsonl_text [q1_output, bare_output])"
    using l1 l2 by simp
  have "f_flush ''out.jsonl'' (jsonl_text [q1_output, bare_output]) ?w =
      (Inl OSError, drop (length q1_line + 5 - length ([] :: string)) (jsonl_text [q1_output, bare_output]),
       put_file ''out.jsonl'' (take (length q1_line + 5) ([] @ jsonl_text [q1_output, bare_output])) ?w)"
    by (rule f_flush_over [OF _ _ _ over]) (simp_all add: world_with_simps)
  then have "fst (f_close ''out.jsonl'' (jsonl_text [q1_output, bare_output]) ?w) = Inl OSError"
    by (simp add: f_close_def del: jsonl_text_simps)
  with loop show ?thesis by (simp only:)
qed


subsection \<open>The claims\<close>

text \<open>
  Claim C1. For a record with a question string, a contexts array and a labels array,
  the prompt is \<^verbatim>\<open>QUESTION:\<close>, the question and a line feed, then \<^verbatim>\<open>CONTEXT: \<close>, then
  \<open>contexts[i]\<close> and a line feed for every index \<open>i\<close> below the number of labels, then the
  instruction suffix; no label value occurs in it. (\<open>py_str\<close> leaves a passage that is a
  \<^verbatim>\<open>str\<close> as it is.) The prompt exists when there are at least as many passages as
  labels; otherwise \<open>contexts[i]\<close> is out of range and no prompt is produced.
\<close>

theorem form_question_text:
  assumes "map_of r ''QUESTION'' = Some (JStr q)"
    and "map_of r ''CONTEXTS'' = Some (JArr cs)"
    and "map_of r ''LABELS'' = Some (JArr ls)"
  shows "form_question (JObj r) =
     (if length ls \<le> length cs
      then Inr (''QUESTION:'' @ q @ [newline] @ ''CONTEXT: '' @
                concat (map (\<lambda>i. py_str (cs ! i) @ [newline]) [0..<length ls]) @
                ''TARGET: the answer to the question given the context is (yes|no|maybe): '')
      else Inl IndexError)"
  using form_question_array_record [OF assms]
  by (simp add: py_str_def instruction_suffix_def)

theorem form_question_text_witness:
  "form_question (JObj q1_record) =
     Inr (''QUESTION:Is X true?'' @ [newline] @ ''CONTEXT: Evidence A'' @ [newline] @
          ''TARGET: the answer to the question given the context is (yes|no|maybe): '')"
  using form_question_text [of q1_record "''Is X true?''" "[JStr ''Evidence A'']" "[JStr ''L1'']"]
  by (simp add: q1_record_def py_str_def)

text \<open>
  Claim C2. On the source mapping of the scenario, with the one record \<^verbatim>\<open>q1\<close>, the
  transformation returns exactly one record and writes exactly one line, the line
  \<open>q1_line\<close> of the specification.
\<close>

theorem scenario_q1:
  assumes "files w data_path = Some doc" and "json_load doc = Inr (JObj q1_mapping)"
    and "writable w output_path" and "fsize_limit w = None"
  shows "convert_to_jsonl json_load data_path output_path w =
     (Inr [JObj [(''input'', JStr (''QUESTION:Is X true?'' @ [newline] @ ''CONTEXT: Evidence A'' @
                    [newline] @
                    ''TARGET: the answer to the question given the context is (yes|no|maybe): '')),
                 (''output'', JStr ''yes'')]],
      put_file output_path (q1_line @ [newline]) w) \<and>
     lines_of (q1_line @ [newline]) = [q1_line]"
proof -
  let ?rec = "JObj [(''input'', JStr (''QUESTION:Is X true?'' @ [newline] @ ''CONTEXT: Evidence A'' @
                    [newline] @
                    ''TARGET: the answer to the question given the context is (yes|no|maybe): '')),
                 (''output'', JStr ''yes'')]"
  have keys: "distinct (map fst q1_mapping)" by (simp add: q1_mapping_def)
  have recs: "list_all2 (\<lambda>kv rec. converts_to (snd kv) rec) q1_mapping [?rec]"
    using q1_converts by (simp add: q1_mapping_def)
  have written: "jsonl_text [?rec] = q1_line @ [newline]"
    using q1_dumps by simp
  have "convert_to_jsonl json_load data_path output_path w =
      (Inr [?rec], put_file output_path (jsonl_text [?rec]) w)"
    by (rule convert_to_jsonl_runs [where json_load = json_load and doc = doc,
          OF assms(1,2) keys recs assms(3,4)])
  moreover have "lines_of (jsonl_text [?rec]) = [q1_line]"
    using q1_dumps by (simp only: lines_of_jsonl_text) simp
  ultimately show ?thesis by (simp only: written)
qed

theorem scenario_q1_witness:
  "fst (convert_to_jsonl (load_only (JObj q1_mapping)) ''data.json'' ''out.jsonl''
          (world_with (JObj q1_mapping) None)) =
     Inr [JObj [(''input'', JStr (''QUESTION:Is X true?'' @ [newline] @ ''CONTEXT: Evidence A'' @
                    [newline] @
                    ''TARGET: the answer to the question given the context is (yes|no|maybe): '')),
                 (''output'', JStr ''yes'')]] \<and>
   files (snd (convert_to_jsonl (load_only (JObj q1_mapping)) ''data.json'' ''out.jsonl''
          (world_with (JObj q1_mapping) None))) ''out.jsonl'' = Some (q1_line @ [newline])"
proof -
  have h1: "files (world_with (JObj q1_mapping) None) ''data.json'' = Some (json_dumps (JObj q1_mapping))"
    by (simp add: world_with_def)
  have h2: "load_only (JObj q1_mapping) (json_dumps (JObj q1_mapping)) = Inr (JObj q1_mapping)"
    by (simp add: load_only_def)
  have h3: "writable (world_with (JObj q1_mapping) None) ''out.jsonl''"
    by (simp add: world_with_def)
  have h4: "fsize_limit (world_with (JObj q1_mapping) None) = None"
    by (simp add: world_with_def)
  from scenario_q1 [where json_load = "load_only (JObj q1_mapping)", OF h1 h2 h3 h4]
  show ?thesis by simp
qed

text \<open>
  Claim C3. The prompt of every valid record ends with the instruction suffix, also
  when the record has no context passages and no labels; and whatever the record,
  a prompt that \<^verbatim>\<open>form_question\<close> returns ends with that suffix.
\<close>

theorem prompt_ends_with_suffix:
  "(valid_record obj \<longrightarrow>
      (\<exists>pre. form_question obj =
         Inr (pre @ ''TARGET: the answer to the question given the context is (yes|no|maybe): ''))) \<and>
   (\<forall>st. form_question obj = Inr st \<longrightarrow>
      suffix ''TARGET: the answer to the question given the context is (yes|no|maybe): '' st)"
proof (intro conjI impI allI)
  assume "valid_record obj"
  then obtain r q cs ls a where obj: "obj = JObj r"
    and f: "map_of r ''QUESTION'' = Some (JStr q)" "map_of r ''CONTEXTS'' = Some (JArr cs)"
      "map_of r ''LABELS'' = Some (JArr ls)"
    and len: "length ls = length cs"
    by (rule valid_record_shape)
  from form_question_array_record [OF f] len obj
  have "\<exists>pre. form_question obj = Inr (pre @ instruction_suffix)"
    by (simp del: append_assoc add: append_assoc [symmetric])
  then show "\<exists>pre. form_question obj =
         Inr (pre @ ''TARGET: the answer to the question given the context is (yes|no|maybe): '')"
    by (simp add: instruction_suffix_def)
next
  fix st assume "form_question obj = Inr st"
  from form_question_ends_with_suffix [OF this]
  show "suffix ''TARGET: the answer to the question given the context is (yes|no|maybe): '' st"
    by (auto simp: instruction_suffix_def suffix_def)
qed

theorem prompt_ends_with_suffix_witness:
  "(\<exists>pre. form_question (JObj bare_record) =
      Inr (pre @ ''TARGET: the answer to the question given the context is (yes|no|maybe): '')) \<and>
   suffix ''TARGET: the answer to the question given the context is (yes|no|maybe): ''
     (''QUESTION:Q?'' @ [newline] @ ''CONTEXT: '' @
      ''TARGET: the answer to the question given the context is (yes|no|maybe): '')"
proof -
  have v: "valid_record (JObj bare_record)"
    by (simp add: valid_record_def bare_record_def)
  have e: "form_question (JObj bare_record) =
      Inr (''QUESTION:Q?'' @ [newline] @ ''CONTEXT: '' @
      ''TARGET: the answer to the question given the context is (yes|no|maybe): '')"
    by (simp add: bare_record_def form_question_def py_getitem_str_def py_iter_def py_str_def
        instruction_suffix_def)
  from prompt_ends_with_suffix [of "JObj bare_record"] v e show ?thesis
    by blast
qed

text \<open>
  Claim C4. For a source mapping of valid records the transformation returns a list
  with one record for each key and writes a file with one line for each key, both in
  the order of the keys: the record and the line at position \<open>i\<close> are made from the value
  of the key at position \<open>i\<close>.
\<close>

theorem one_line_per_key:
  assumes "files w data_path = Some doc" and "json_load doc = Inr (JObj kvs)"
    and "valid_mapping kvs"
    and "writable w output_path" and "fsize_limit w = None"
  shows "\<exists>objs w' content.
     convert_to_jsonl json_load data_path output_path w = (Inr objs, w') \<and>
     files w' output_path = Some content \<and>
     length objs = length kvs \<and>
     length (lines_of content) = length kvs \<and>
     list_all2 (\<lambda>kv rec. converts_to (snd kv) rec) kvs objs \<and>
     list_all2 (\<lambda>kv line. \<exists>rec. converts_to (snd kv) rec \<and> line = json_dumps rec) kvs
       (lines_of content)"
proof -
  from valid_mapping_records [OF assms(3)] obtain objs where
    "list_all2 (\<lambda>kv rec. converts_to (snd kv) rec \<and>
            (\<exists>p a. rec = JObj [(''input'', JStr p), (''output'', JStr a)])) kvs objs" ..
  then have recs: "list_all2 (\<lambda>kv rec. converts_to (snd kv) rec) kvs objs"
    by (rule list_all2_mono) simp
  from assms(3) have keys: "distinct (map fst kvs)" by (simp add: valid_mapping_def)
  have run: "convert_to_jsonl json_load data_path output_path w =
      (Inr objs, put_file output_path (jsonl_text objs) w)"
    by (rule convert_to_jsonl_runs [where json_load = json_load and doc = doc, OF assms(1,2) keys recs assms(4,5)])
  have len: "length objs = length kvs"
    using recs by (simp add: list_all2_lengthD)
  have lines: "list_all2 (\<lambda>kv line. \<exists>rec. converts_to (snd kv) rec \<and> line = json_dumps rec) kvs
      (map json_dumps objs)"
    using recs by (simp add: list_all2_map2) (rule list_all2_mono, assumption, blast)
  show ?thesis
    using run len lines recs
    by (intro exI [of _ objs] exI [of _ "put_file output_path (jsonl_text objs) w"]
        exI [of _ "jsonl_text objs"]) (simp add: lines_of_jsonl_text)
qed

theorem one_line_per_key_witness:
  "\<exists>objs w' content.
     convert_to_jsonl (load_only (JObj two_mapping)) ''data.json'' ''out.jsonl''
       (world_with (JObj two_mapping) None) = (Inr objs, w') \<and>
     files w' ''out.jsonl'' = Some content \<and>
     length objs = 2 \<and>
     length (lines_of content) = 2 \<and>
     list_all2 (\<lambda>kv rec. converts_to (snd kv) rec) two_mapping objs \<and>
     list_all2 (\<lambda>kv line. \<exists>rec. converts_to (snd kv) rec \<and> line = json_dumps rec) two_mapping
       (lines_of content)"
proof -
  have two: "length two_mapping = 2" by (simp add: two_mapping_def)
  from one_line_per_key [where json_load = "load_only (JObj two_mapping)",
      OF world_with_simps(1) load_only_same two_mapping_valid world_with_simps(2,3)]
  show ?thesis by (simp only: two)
qed

text \<open>
  Claim C5, as amended. The \<^verbatim>\<open>output\<close> value of every record returned and written is the
  value of the source record's field \<^verbatim>\<open>reasoning_required_pred\<close>, unchanged. The field
  name is fixed in the code: \<^verbatim>\<open>convert_to_jsonl\<close> takes the source path and the output
  path and nothing that names a field.
\<close>

theorem output_is_reasoning_required_pred:
  assumes "convert_to_jsonl json_load data_path output_path w = (Inr objs, w')"
    and "files w data_path = Some doc" and "json_load doc = Inr (JObj kvs)"
    and "distinct (map fst kvs)"
  shows "list_all2
       (\<lambda>kv rec. \<exists>a. py_getitem_str (snd kv) ''reasoning_required_pred'' = Inr a \<and>
                     py_getitem_str rec ''output'' = Inr a) kvs objs \<and>
     files w' output_path = Some (jsonl_text objs)"
proof -
  from convert_to_jsonl_returns [where json_load = json_load and doc = doc, OF assms]
  have recs: "list_all2 (\<lambda>kv rec. converts_to (snd kv) rec) kvs objs"
    and w': "w' = put_file output_path (jsonl_text objs) w"
    by simp_all
  from recs have "list_all2
       (\<lambda>kv rec. \<exists>a. py_getitem_str (snd kv) ''reasoning_required_pred'' = Inr a \<and>
                     py_getitem_str rec ''output'' = Inr a) kvs objs"
    by (rule list_all2_mono) (rule converts_to_output)
  with w' show ?thesis by simp
qed

theorem output_is_reasoning_required_pred_witness:
  "list_all2
       (\<lambda>kv rec. \<exists>a. py_getitem_str (snd kv) ''reasoning_required_pred'' = Inr a \<and>
                     py_getitem_str rec ''output'' = Inr a)
       [(''q1'', JObj two_answers_record)]
       [JObj [(''input'', JStr (''QUESTION:Q?'' @ [newline] @ ''CONTEXT: '' @
               ''TARGET: the answer to the question given the context is (yes|no|maybe): '')),
            (''output'', JStr ''yes'')]] \<and>
   files (put_file ''out.jsonl''
      (jsonl_text [JObj [(''input'', JStr (''QUESTION:Q?'' @ [newline] @ ''CONTEXT: '' @
               ''TARGET: the answer to the question given the context is (yes|no|maybe): '')),
            (''output'', JStr ''yes'')]])
      (world_with (JObj [(''q1'', JObj two_answers_record)]) None)) ''out.jsonl'' =
     Some (jsonl_text [JObj [(''input'', JStr (''QUESTION:Q?'' @ [newline] @ ''CONTEXT: '' @
               ''TARGET: the answer to the question given the context is (yes|no|maybe): '')),
            (''output'', JStr ''yes'')]])"
proof -
  have keys: "distinct (map fst [(''q1'', JObj two_answers_record)])" by simp
  show ?thesis
    by (rule output_is_reasoning_required_pred
        [where json_load = "load_only (JObj [(''q1'', JObj two_answers_record)])",
          OF two_answers_run world_with_simps(1) load_only_same keys])
qed

text \<open>
  Against claim C5 as stated: the record below has the answer \<^verbatim>\<open>no\<close> in its field
  \<^verbatim>\<open>final_decision\<close> and \<^verbatim>\<open>yes\<close> in \<^verbatim>\<open>reasoning_required_pred\<close>; the call, which has no
  argument to name a field, writes \<^verbatim>\<open>yes\<close>.
\<close>

theorem answer_field_is_fixed:
  "map_of two_answers_record ''final_decision'' = Some (JStr ''no'') \<and>
   fst (convert_to_jsonl (load_only (JObj [(''q1'', JObj two_answers_record)])) ''data.json''
          ''out.jsonl'' (world_with (JObj [(''q1'', JObj two_answers_record)]) None)) =
     Inr [JObj [(''input'', JStr (''QUESTION:Q?'' @ [newline] @ ''CONTEXT: '' @
               ''TARGET: the answer to the question given the context is (yes|no|maybe): '')),
            (''output'', JStr ''yes'')]]"
  by (simp only: two_answers_run) (simp add: two_answers_record_def)







text \<open>
  Claim C8. A record with more labels than context passages makes \<^verbatim>\<open>form_question\<close>
  raise \<^verbatim>\<open>IndexError\<close>. A record with more passages than labels is converted: the
  prompt holds only the first passages, as many as there are labels, and the loop of
  \<^verbatim>\<open>convert_to_jsonl\<close> appends its record and goes on.
\<close>

theorem length_mismatch:
  assumes "map_of r ''QUESTION'' = Some q"
    and "map_of r ''CONTEXTS'' = Some (JArr cs)"
    and "map_of r ''LABELS'' = Some (JArr ls)"
  shows "(length cs < length ls \<longrightarrow> form_question (JObj r) = Inl IndexError) \<and>
     (length ls < length cs \<longrightarrow>
        form_question (JObj r) = Inr (prompt_of q (take (length ls) cs)) \<and>
        (\<forall>a data k ks acc.
           map_of r ''reasoning_required_pred'' = Some a \<and> py_getitem_str data k = Inr (JObj r) \<longrightarrow>
           convert_loop data (k # ks) acc =
             convert_loop data ks
               (acc @ [JObj [(''input'', JStr (prompt_of q (take (length ls) cs))), (''output'', a)]])))"
proof (intro conjI impI allI)
  assume "length cs < length ls"
  with form_question_array_record [OF assms] show "form_question (JObj r) = Inl IndexError"
    by simp
next
  assume "length ls < length cs"
  then have le: "length ls \<le> length cs" by simp
  show p: "form_question (JObj r) = Inr (prompt_of q (take (length ls) cs))"
    by (rule form_question_prompt_of [OF assms le])
  fix a data k ks acc
  assume "map_of r ''reasoning_required_pred'' = Some a \<and> py_getitem_str data k = Inr (JObj r)"
  with p show "convert_loop data (k # ks) acc =
             convert_loop data ks
               (acc @ [JObj [(''input'', JStr (prompt_of q (take (length ls) cs))), (''output'', a)]])"
    by (simp add: py_getitem_str_def)
qed

theorem length_mismatch_witness:
  "form_question (JObj more_labels_record) = Inl IndexError \<and>
   form_question (JObj more_contexts_record) =
     Inr (''QUESTION:Q?'' @ [newline] @ ''CONTEXT: c0'' @ [newline] @
          ''TARGET: the answer to the question given the context is (yes|no|maybe): '') \<and>
   convert_loop (JObj [(''q1'', JObj more_contexts_record)]) [''q1''] [] =
     Inr [JObj [(''input'', JStr (''QUESTION:Q?'' @ [newline] @ ''CONTEXT: c0'' @ [newline] @
          ''TARGET: the answer to the question given the context is (yes|no|maybe): '')),
                (''output'', JStr ''yes'')]]"
proof -
  have a: "length [JStr ''c0''] < length [JStr ''l0'', JStr ''l1'']" by simp
  have b: "length [JStr ''l0''] < length [JStr ''c0'', JStr ''c1'']" by simp
  have k: "py_getitem_str (JObj [(''q1'', JObj more_contexts_record)]) ''q1'' =
      Inr (JObj more_contexts_record)"
    by (simp add: py_getitem_str_def)
  have more_labels: "map_of more_labels_record ''QUESTION'' = Some (JStr ''Q?'')"
    "map_of more_labels_record ''CONTEXTS'' = Some (JArr [JStr ''c0''])"
    "map_of more_labels_record ''LABELS'' = Some (JArr [JStr ''l0'', JStr ''l1''])"
    by (simp_all add: more_labels_record_def)
  have more_contexts: "map_of more_contexts_record ''QUESTION'' = Some (JStr ''Q?'')"
    "map_of more_contexts_record ''CONTEXTS'' = Some (JArr [JStr ''c0'', JStr ''c1''])"
    "map_of more_contexts_record ''LABELS'' = Some (JArr [JStr ''l0''])"
    "map_of more_contexts_record ''reasoning_required_pred'' = Some (JStr ''yes'')"
    by (simp_all add: more_contexts_record_def)
  have p: "prompt_of (JStr ''Q?'') (take (length [JStr ''l0'']) [JStr ''c0'', JStr ''c1'']) =
      ''QUESTION:Q?'' @ [newline] @ ''CONTEXT: c0'' @ [newline] @
          ''TARGET: the answer to the question given the context is (yes|no|maybe): ''"
    by (simp add: prompt_of_def py_str_def instruction_suffix_def)
  from length_mismatch [OF more_labels] a
  have 1: "form_question (JObj more_labels_record) = Inl IndexError" by blast
  from length_mismatch [OF more_contexts(1-3)] b more_contexts(4) k
  have 2: "form_question (JObj more_contexts_record) =
        Inr (prompt_of (JStr ''Q?'') (take (length [JStr ''l0'']) [JStr ''c0'', JStr ''c1'']))"
    and 3: "convert_loop (JObj [(''q1'', JObj more_contexts_record)]) (''q1'' # []) [] =
      convert_loop (JObj [(''q1'', JObj more_contexts_record)]) []
        ([] @ [JObj [(''input'', JStr (prompt_of (JStr ''Q?'')
                 (take (length [JStr ''l0'']) [JStr ''c0'', JStr ''c1'']))), (''output'', JStr ''yes'')]])"
    by blast+
  from 1 2 3 show ?thesis
    by (simp only: p) simp
qed

text \<open>
  Claim C9. For a source mapping of valid records, every line of the output file
  reads back as a JSON object with exactly two members, \<^verbatim>\<open>input\<close> and \<^verbatim>\<open>output\<close> in this
  order, both with string values.
\<close>

theorem output_lines_decode:
  assumes "files w data_path = Some doc" and "json_load doc = Inr (JObj kvs)"
    and "valid_mapping kvs"
    and "writable w output_path" and "fsize_limit w = None"
  shows "\<exists>objs w' content.
     convert_to_jsonl json_load data_path output_path w = (Inr objs, w') \<and>
     files w' output_path = Some content \<and>
     list_all (\<lambda>line. \<exists>p a. decode_line line = Some [(''input'', p), (''output'', a)])
       (lines_of content)"
proof -
  from valid_mapping_records [OF assms(3)] obtain objs where both:
    "list_all2 (\<lambda>kv rec. converts_to (snd kv) rec \<and>
            (\<exists>p a. rec = JObj [(''input'', JStr p), (''output'', JStr a)])) kvs objs" ..
  then have recs: "list_all2 (\<lambda>kv rec. converts_to (snd kv) rec) kvs objs"
    by (rule list_all2_mono) simp
  from both have "list_all2 (\<lambda>kv rec. \<exists>p a. rec = JObj [(''input'', JStr p), (''output'', JStr a)]) kvs objs"
    by (rule list_all2_mono) simp
  then have "list_all (\<lambda>rec. \<exists>p a. rec = JObj [(''input'', JStr p), (''output'', JStr a)]) objs"
    by (rule list_all2_right)
  then have "list_all (\<lambda>rec. \<exists>p a. decode_line (json_dumps rec) = Some [(''input'', p), (''output'', a)]) objs"
  proof (rule list.pred_mono_strong)
    fix rec assume "\<exists>p a. rec = JObj [(''input'', JStr p), (''output'', JStr a)]"
    then obtain p a where "rec = JObj [(''input'', JStr p), (''output'', JStr a)]" by blast
    then have "decode_line (json_dumps rec) = Some [(''input'', p), (''output'', a)]"
      by (simp only: decode_two_strings)
    then show "\<exists>p a. decode_line (json_dumps rec) = Some [(''input'', p), (''output'', a)]"
      by blast
  qed
  then have dec: "list_all (\<lambda>line. \<exists>p a. decode_line line = Some [(''input'', p), (''output'', a)])
      (map json_dumps objs)"
    by (simp add: list_all_iff)
  from assms(3) have keys: "distinct (map fst kvs)" by (simp add: valid_mapping_def)
  have run: "convert_to_jsonl json_load data_path output_path w =
      (Inr objs, put_file output_path (jsonl_text objs) w)"
    by (rule convert_to_jsonl_runs [where json_load = json_load and doc = doc,
          OF assms(1,2) keys recs assms(4,5)])
  show ?thesis
    using run dec
    by (intro exI [of _ objs] exI [of _ "put_file output_path (jsonl_text objs) w"]
        exI [of _ "jsonl_text objs"]) (simp add: lines_of_jsonl_text)
qed

theorem output_lines_decode_witness:
  "\<exists>objs w' content.
     convert_to_jsonl (load_only (JObj two_mapping)) ''data.json'' ''out.jsonl''
       (world_with (JObj two_mapping) None) = (Inr objs, w') \<and>
     files w' ''out.jsonl'' = Some content \<and>
     list_all (\<lambda>line. \<exists>p a. decode_line line = Some [(''input'', p), (''output'', a)])
       (lines_of content)"
  by (rule output_lines_decode [where json_load = "load_only (JObj two_mapping)",
      OF world_with_simps(1) load_only_same two_mapping_valid world_with_simps(2,3)])

text \<open>
  Claim C10. Running the transformation a second time, in the world the first run
  left and with the source file untouched by it (the two paths differ), gives the same
  result and leaves the world, and so the output file, exactly as the first run did.
\<close>

theorem rerun_identical:
  assumes "data_path \<noteq> output_path"
    and "convert_to_jsonl json_load data_path output_path w = (r, w1)"
  shows "convert_to_jsonl json_load data_path output_path w1 = (r, w1)"
proof (cases "w1 = w")
  case True
  with assms(2) show ?thesis by simp
next
  case False
  with convert_to_jsonl_cases [OF assms(2)] obtain doc data ks objs r' where
    src: "files w data_path = Some doc" "json_load doc = Inr data" "py_keys data = Inr ks"
      "convert_loop data ks [] = Inr objs" and
    wr: "write_jsonl output_path objs w = (r', w1)" and
    r: "r = (case r' of Inl e \<Rightarrow> Inl e | Inr u \<Rightarrow> Inr objs)"
    by blast
  from write_jsonl_cases [OF wr] False obtain x where w1: "w1 = put_file output_path x w"
    by auto
  have wable: "writable w output_path"
  proof (rule ccontr)
    assume "\<not> writable w output_path"
    with wr have "w1 = w" by (simp add: write_jsonl_def open_wt_def)
    with False show False ..
  qed
  have "files w1 data_path = Some doc"
    using src(1) assms(1) by (simp add: w1)
  moreover have "write_jsonl output_path objs w1 = (r', w1)"
    using wr by (simp add: w1 write_jsonl_again [OF wable])
  ultimately show ?thesis
    using src(2-4) r
    by (simp add: convert_to_jsonl_def open_rt_def split: sum.splits)
qed

theorem rerun_identical_witness:
  "convert_to_jsonl (load_only (JObj two_mapping)) ''data.json'' ''out.jsonl''
     (snd (convert_to_jsonl (load_only (JObj two_mapping)) ''data.json'' ''out.jsonl''
        (world_with (JObj two_mapping) None))) =
   convert_to_jsonl (load_only (JObj two_mapping)) ''data.json'' ''out.jsonl''
     (world_with (JObj two_mapping) None) \<and>
   (\<exists>objs. fst (convert_to_jsonl (load_only (JObj two_mapping)) ''data.json'' ''out.jsonl''
        (world_with (JObj two_mapping) None)) = Inr objs \<and> length objs = 2)"
proof -
  have ne: "''data.json'' \<noteq> ''out.jsonl''" by simp
  from valid_mapping_records [OF two_mapping_valid] obtain objs where
    "list_all2 (\<lambda>kv rec. converts_to (snd kv) rec \<and>
            (\<exists>p a. rec = JObj [(''input'', JStr p), (''output'', JStr a)])) two_mapping objs" ..
  then have recs: "list_all2 (\<lambda>kv rec. converts_to (snd kv) rec) two_mapping objs"
    by (rule list_all2_mono) simp
  have keys: "distinct (map fst two_mapping)" by (simp add: two_mapping_def)
  have run: "convert_to_jsonl (load_only (JObj two_mapping)) ''data.json'' ''out.jsonl''
      (world_with (JObj two_mapping) None) =
      (Inr objs, put_file ''out.jsonl'' (jsonl_text objs) (world_with (JObj two_mapping) None))"
    by (rule convert_to_jsonl_runs [where json_load = "load_only (JObj two_mapping)",
          OF world_with_simps(1) load_only_same keys recs world_with_simps(2,3)])
  from recs have len: "length objs = 2"
    by (simp add: list_all2_lengthD [symmetric] two_mapping_def)
  from rerun_identical [OF ne run] run len show ?thesis by simp
qed

end
